theory Spec2Isabelle
  imports Main
begin

section \<open>Values, comparisons and list indexing\<close>

text \<open>
  The lines and clocks handled by \<^verbatim>\<open>utils.py\<close> are Python lists of floats. The code
  never computes with them: it compares timestamps with \<^verbatim>\<open>==\<close> and \<^verbatim>\<open>>\<close>, copies values
  and creates \<^verbatim>\<open>float('nan')\<close>. A float is therefore either \<open>NaN\<close> or a number of a
  linearly ordered type. Every comparison with \<open>NaN\<close> is false, also \<open>NaN == NaN\<close>.
\<close>

datatype 'a pyfloat = NaN | Num 'a

fun py_eq :: "'a pyfloat \<Rightarrow> 'a pyfloat \<Rightarrow> bool" where
  "py_eq (Num a) (Num b) = (a = b)"
| "py_eq _ _ = False"

fun py_gt :: "'a::linorder pyfloat \<Rightarrow> 'a pyfloat \<Rightarrow> bool" where
  "py_gt (Num a) (Num b) = (b < a)"
| "py_gt _ _ = False"

datatype error = IndexError | RuntimeError

text \<open>
  \<^verbatim>\<open>xs[i]\<close> on a Python list: a negative index counts from the end, and an index out of
  range raises \<^verbatim>\<open>IndexError\<close>.
\<close>

definition getitem :: "'a list \<Rightarrow> int \<Rightarrow> error + 'a" where
  "getitem xs i =
     (let j = (if i < 0 then i + int (length xs) else i)
      in if 0 \<le> j \<and> j < int (length xs) then Inr (xs ! nat j) else Inl IndexError)"

section \<open>convert_to_master_clock\<close>

text \<open>
  The inner loop \<^verbatim>\<open>for i in range(next_start_idx, len(line_clk))\<close>, run over the list of
  its indices. It ends with \<open>Some i\<close> at an exact hit (\<^verbatim>\<open>found = True; break\<close>), with
  \<open>None\<close> at the first clock value greater than \<open>sc\<close> (\<^verbatim>\<open>break\<close>) or when the range
  is used up.
\<close>

fun find_hit :: "'a::linorder pyfloat list \<Rightarrow> 'a pyfloat \<Rightarrow> nat list \<Rightarrow> error + nat option" where
  "find_hit line_clk sc [] = Inr None"
| "find_hit line_clk sc (i # rest) =
     (case getitem line_clk (int i) of
        Inl e \<Rightarrow> Inl e
      | Inr v \<Rightarrow>
          if py_eq sc v then Inr (Some i)
          else if py_gt v sc then Inr None
          else find_hit line_clk sc rest)"

text \<open>The two variables the outer loop updates.\<close>

record 'a loop_state =
  new_line :: "'a pyfloat list"
  next_start_idx :: nat

definition clk_offset :: "'a list \<Rightarrow> 'b list \<Rightarrow> int" where
  "clk_offset line line_clk = int (length line_clk) - int (length line)"

text \<open>One iteration of \<^verbatim>\<open>for sc in master_clock\<close>.\<close>

definition body ::
  "'a::linorder pyfloat list \<Rightarrow> 'a pyfloat list \<Rightarrow> bool \<Rightarrow> 'a pyfloat \<Rightarrow> 'a loop_state
     \<Rightarrow> error + 'a loop_state" where
  "body line line_clk fill_by_prev sc st =
     (case find_hit line_clk sc [next_start_idx st ..< length line_clk] of
        Inl e \<Rightarrow> Inl e
      | Inr (Some i) \<Rightarrow>
          (let line_idx = int i - clk_offset line line_clk
           in if line_idx < 0
              then Inr \<lparr>new_line = new_line st @ [NaN], next_start_idx = i + 1\<rparr>
              else (case getitem line line_idx of
                      Inl e \<Rightarrow> Inl e
                    | Inr x \<Rightarrow> Inr \<lparr>new_line = new_line st @ [x], next_start_idx = i + 1\<rparr>))
      | Inr None \<Rightarrow>
          (if length (new_line st) > 0 \<and> fill_by_prev
           then (case getitem (new_line st) (- 1) of
                   Inl e \<Rightarrow> Inl e
                 | Inr fill_v \<Rightarrow> Inr (st\<lparr>new_line := new_line st @ [fill_v]\<rparr>))
           else Inr (st\<lparr>new_line := new_line st @ [NaN]\<rparr>)))"

fun loop ::
  "'a::linorder pyfloat list \<Rightarrow> 'a pyfloat list \<Rightarrow> bool \<Rightarrow> 'a pyfloat list \<Rightarrow> 'a loop_state
     \<Rightarrow> error + 'a loop_state" where
  "loop line line_clk fill_by_prev [] st = Inr st"
| "loop line line_clk fill_by_prev (sc # rest) st =
     (case body line line_clk fill_by_prev sc st of
        Inl e \<Rightarrow> Inl e
      | Inr st' \<Rightarrow> loop line line_clk fill_by_prev rest st')"

definition init_state :: "'a loop_state" where
  "init_state = \<lparr>new_line = [], next_start_idx = 0\<rparr>"

text \<open>
  The function itself, with the argument order of the source. A master clock that is
  \<^verbatim>\<open>None\<close> is \<open>None\<close>; the spec's \<open>align(masterClock, series, seriesClock, fill)\<close> is
  \<open>convert_to_master_clock series seriesClock masterClock fill\<close>.
\<close>

definition convert_to_master_clock ::
  "'a::linorder pyfloat list \<Rightarrow> 'a pyfloat list \<Rightarrow> 'a pyfloat list option \<Rightarrow> bool
     \<Rightarrow> error + 'a pyfloat list" where
  "convert_to_master_clock line line_clk master_clock fill_by_prev =
     (case master_clock of
        None \<Rightarrow> Inr line
      | Some mc \<Rightarrow>
          (case loop line line_clk fill_by_prev mc init_state of
             Inl e \<Rightarrow> Inl e
           | Inr st \<Rightarrow> Inr (new_line st)))"


text \<open>
  The state of the outer loop when the first \<open>k\<close> master timestamps have been processed,
  and the result of the inner scan made for master timestamp number \<open>k\<close> (counted from 0).
\<close>

definition state_after ::
  "'a::linorder pyfloat list \<Rightarrow> 'a pyfloat list \<Rightarrow> bool \<Rightarrow> 'a pyfloat list \<Rightarrow> nat
     \<Rightarrow> error + 'a loop_state" where
  "state_after line line_clk fill_by_prev mc k =
     loop line line_clk fill_by_prev (take k mc) init_state"

definition hit_at ::
  "'a::linorder pyfloat list \<Rightarrow> 'a pyfloat list \<Rightarrow> bool \<Rightarrow> 'a pyfloat list \<Rightarrow> nat
     \<Rightarrow> error + nat option" where
  "hit_at line line_clk fill_by_prev mc k =
     (case state_after line line_clk fill_by_prev mc k of
        Inl e \<Rightarrow> Inl e
      | Inr st \<Rightarrow> find_hit line_clk (mc ! k) [next_start_idx st ..< length line_clk])"

text \<open>
  The spec's data model takes both clocks as ascending. A list of timestamps is ascending
  when each timestamp is greater (\<^verbatim>\<open>>\<close>) than every timestamp before it.
\<close>

definition ascending :: "'a::linorder pyfloat list \<Rightarrow> bool" where
  "ascending xs = sorted_wrt (\<lambda>a b. py_gt b a) xs"

section \<open>convert_to_master_clock on a store of list objects\<close>

text \<open>
  Python passes lists by reference, \<^verbatim>\<open>new_line = []\<close> creates a list object and
  \<^verbatim>\<open>append\<close> changes one in place. To state which objects a call changes and which
  object it returns, the same code is modelled once more over a store: the store is the
  list of all list objects, and the address of an object is its position in the store.
  A new object gets the first unused address.
\<close>

type_synonym addr = nat

type_synonym 'a heap = "'a pyfloat list list"

definition new_list :: "'a heap \<Rightarrow> addr \<times> 'a heap" where
  "new_list h = (length h, h @ [[]])"

definition append_h :: "'a heap \<Rightarrow> addr \<Rightarrow> 'a pyfloat \<Rightarrow> 'a heap" where
  "append_h h a x = h[a := h ! a @ [x]]"

text \<open>
  One iteration of the outer loop. The inner scan reads \<^verbatim>\<open>line_clk\<close> and writes nothing,
  so it is \<open>find_hit\<close> on the clock as the store holds it at that moment.
  \<open>clk_off\<close> is the value of \<^verbatim>\<open>clk_offset\<close>, computed once before the loop.
\<close>

definition body_h ::
  "'a::linorder heap \<Rightarrow> addr \<Rightarrow> addr \<Rightarrow> addr \<Rightarrow> int \<Rightarrow> bool \<Rightarrow> 'a pyfloat \<Rightarrow> nat
     \<Rightarrow> error + ('a heap \<times> nat)" where
  "body_h h line line_clk new_line_ref clk_off fill_by_prev sc next_start =
     (case find_hit (h ! line_clk) sc [next_start ..< length (h ! line_clk)] of
        Inl e \<Rightarrow> Inl e
      | Inr (Some i) \<Rightarrow>
          (let line_idx = int i - clk_off
           in if line_idx < 0
              then Inr (append_h h new_line_ref NaN, i + 1)
              else (case getitem (h ! line) line_idx of
                      Inl e \<Rightarrow> Inl e
                    | Inr x \<Rightarrow> Inr (append_h h new_line_ref x, i + 1)))
      | Inr None \<Rightarrow>
          (if length (h ! new_line_ref) > 0 \<and> fill_by_prev
           then (case getitem (h ! new_line_ref) (- 1) of
                   Inl e \<Rightarrow> Inl e
                 | Inr fill_v \<Rightarrow> Inr (append_h h new_line_ref fill_v, next_start))
           else Inr (append_h h new_line_ref NaN, next_start)))"

text \<open>
  The outer loop \<^verbatim>\<open>for sc in master_clock\<close>: the list iterator keeps a position \<open>k\<close>
  and reads the length and the element of the master clock from the store at each step.
  The result is \<open>None\<close> if the loop does not end.
\<close>

partial_function (option) loop_h ::
  "'a::linorder heap \<Rightarrow> addr \<Rightarrow> addr \<Rightarrow> addr \<Rightarrow> addr \<Rightarrow> int \<Rightarrow> bool \<Rightarrow> nat \<Rightarrow> nat
     \<Rightarrow> ((error + addr) \<times> 'a heap) option" where
  "loop_h h line line_clk master new_line_ref clk_off fill_by_prev k next_start =
     (if k < length (h ! master)
      then (case body_h h line line_clk new_line_ref clk_off fill_by_prev (h ! master ! k) next_start of
              Inl e \<Rightarrow> Some (Inl e, h)
            | Inr (h', next_start') \<Rightarrow>
                loop_h h' line line_clk master new_line_ref clk_off fill_by_prev (Suc k) next_start')
      else Some (Inr new_line_ref, h))"

declare loop_h.simps [code]

definition convert_to_master_clock_h ::
  "'a::linorder heap \<Rightarrow> addr \<Rightarrow> addr \<Rightarrow> addr option \<Rightarrow> bool \<Rightarrow> ((error + addr) \<times> 'a heap) option" where
  "convert_to_master_clock_h h line line_clk master_clock fill_by_prev =
     (case master_clock of
        None \<Rightarrow> Some (Inr line, h)
      | Some master \<Rightarrow>
          (let clk_off = int (length (h ! line_clk)) - int (length (h ! line));
               (new_line_ref, h1) = new_list h
           in loop_h h1 line line_clk master new_line_ref clk_off fill_by_prev 0 0))"

section \<open>find_by_plotid\<close>

text \<open>
  The objects of a strategy (data feeds, indicators, observers) come from the backtrader
  library; of each, \<^verbatim>\<open>find_by_plotid\<close> reads only
  \<^verbatim>\<open>getattr(obj.plotinfo, 'plotid', None)\<close>, which is \<^verbatim>\<open>None\<close> when the attribute is
  missing. An identifier is a Python value: \<^verbatim>\<open>None\<close>, a string or a number. The code
  compares identifiers with \<^verbatim>\<open>==\<close>: values of different kinds are unequal, and a \<open>NaN\<close>
  is unequal to every value, itself included.
\<close>

datatype 'a pyval = PyNone | PyStr string | PyNum "'a pyfloat"

fun py_equal :: "'a pyval \<Rightarrow> 'a pyval \<Rightarrow> bool" where
  "py_equal PyNone PyNone = True"
| "py_equal (PyStr s) (PyStr t) = (s = t)"
| "py_equal (PyNum a) (PyNum b) = py_eq a b"
| "py_equal _ _ = False"

record 'a plotinfo =
  plotid :: "'a pyval"

record 'a plot_object =
  obj_name :: string
  plotinfo :: "'a plotinfo"

record 'a strategy =
  datas :: "'a plot_object list"
  getindicators :: "'a plot_object list"
  getobservers :: "'a plot_object list"

text \<open>
  The loop \<^verbatim>\<open>for obj in objs\<close> that fills \<^verbatim>\<open>founds\<close>.
\<close>

fun collect_founds ::
  "'a pyval \<Rightarrow> 'a plot_object list \<Rightarrow> 'a plot_object list \<Rightarrow> 'a plot_object list" where
  "collect_founds pid [] founds = founds"
| "collect_founds pid (obj # objs) founds =
     collect_founds pid objs
       (if py_equal (plotid (plotinfo obj)) pid then founds @ [obj] else founds)"

text \<open>
  \<open>Inr None\<close> is the return value \<^verbatim>\<open>None\<close>, \<open>Inl RuntimeError\<close> the raised exception.
\<close>

definition find_by_plotid :: "'a strategy \<Rightarrow> 'a pyval \<Rightarrow> error + 'a plot_object option" where
  "find_by_plotid strategy pid =
     (let objs = datas strategy @ getindicators strategy @ getobservers strategy;
          founds = collect_founds pid objs [];
          num_results = length founds
      in if num_results = 0 then Inr None
         else if num_results = 1
              then (case getitem founds 0 of Inl e \<Rightarrow> Inl e | Inr obj \<Rightarrow> Inr (Some obj))
              else Inl RuntimeError)"

text \<open>
  The candidates in the order the function visits them; the candidates whose identifier
  compares equal (\<^verbatim>\<open>==\<close>) to a given one, and their number; the number of candidates
  that carry a given identifier, that is, whose identifier is that very value.
\<close>

definition candidates :: "'a strategy \<Rightarrow> 'a plot_object list" where
  "candidates strategy = datas strategy @ getindicators strategy @ getobservers strategy"

definition matching :: "'a strategy \<Rightarrow> 'a pyval \<Rightarrow> 'a plot_object list" where
  "matching strategy pid =
     filter (\<lambda>obj. py_equal (plotid (plotinfo obj)) pid) (candidates strategy)"

definition num_matching :: "'a strategy \<Rightarrow> 'a pyval \<Rightarrow> nat" where
  "num_matching strategy pid = length (matching strategy pid)"

definition num_carrying :: "'a strategy \<Rightarrow> 'a pyval \<Rightarrow> nat" where
  "num_carrying strategy pid =
     count_list (map (\<lambda>obj. plotid (plotinfo obj)) (candidates strategy)) pid"

section \<open>Indexing and the inner scan\<close>

lemma getitem_in_range: "i < length xs \<Longrightarrow> getitem xs (int i) = Inr (xs ! i)"
  by (simp add: getitem_def)

lemma getitem_last: "xs \<noteq> [] \<Longrightarrow> getitem xs (- 1) = Inr (last xs)"
proof -
  assume ne: "xs \<noteq> []"
  then have "nat (int (length xs) - 1) = length xs - 1"
    by (simp add: nat_diff_distrib')
  with ne show ?thesis
    by (simp add: getitem_def last_conv_nth)
qed

lemma find_hit_total:
  "\<forall>i\<in>set idxs. i < length line_clk \<Longrightarrow> \<exists>r. find_hit line_clk sc idxs = Inr r"
  by (induction idxs) (auto simp: getitem_in_range)

lemma find_hit_Some:
  "find_hit line_clk sc idxs = Inr (Some i) \<Longrightarrow> \<forall>j\<in>set idxs. j < length line_clk
     \<Longrightarrow> i \<in> set idxs \<and> py_eq sc (line_clk ! i)"
  by (induction idxs) (auto simp: getitem_in_range split: if_splits)

lemma find_hit_no_match:
  "\<forall>j\<in>set idxs. j < length line_clk \<and> \<not> py_eq sc (line_clk ! j)
     \<Longrightarrow> find_hit line_clk sc idxs = Inr None"
  by (induction idxs) (auto simp: getitem_in_range)

lemma find_hit_at_head:
  "i < length line_clk \<Longrightarrow> py_eq sc (line_clk ! i) \<Longrightarrow> find_hit line_clk sc (i # rest) = Inr (Some i)"
  by (simp add: getitem_in_range)

lemma find_hit_range_total: "\<exists>r. find_hit line_clk sc [n ..< length line_clk] = Inr r"
  by (rule find_hit_total) simp

lemma find_hit_range_Some:
  assumes "find_hit line_clk sc [n ..< length line_clk] = Inr (Some i)"
  shows "n \<le> i" and "i < length line_clk" and "py_eq sc (line_clk ! i)"
  using find_hit_Some [OF assms] by auto

lemma find_hit_skipped:
  "find_hit line_clk sc [n ..< length line_clk] = Inr (Some i) \<Longrightarrow> n \<le> j \<Longrightarrow> j < i
     \<Longrightarrow> \<not> py_eq sc (line_clk ! j) \<and> \<not> py_gt (line_clk ! j) sc"
proof (induction "length line_clk - n" arbitrary: n)
  case 0
  then show ?case by simp
next
  case (Suc d)
  then have n: "n < length line_clk" by simp
  then have upt: "[n ..< length line_clk] = n # [Suc n ..< length line_clk]"
    by (rule upt_conv_Cons)
  from Suc.prems(1) n have step:
    "(if py_eq sc (line_clk ! n) then Inr (Some n)
      else if py_gt (line_clk ! n) sc then Inr None
      else find_hit line_clk sc [Suc n ..< length line_clk]) = Inr (Some i)"
    unfolding upt by (simp add: getitem_in_range)
  show ?case
  proof (cases "py_eq sc (line_clk ! n)")
    case True
    with step have "i = n" by simp
    with Suc.prems(2,3) show ?thesis by simp
  next
    case False
    with step have gt: "\<not> py_gt (line_clk ! n) sc"
      and rest: "find_hit line_clk sc [Suc n ..< length line_clk] = Inr (Some i)"
      by (simp_all split: if_splits)
    show ?thesis
    proof (cases "j = n")
      case True
      with False gt show ?thesis by simp
    next
      case False
      with Suc.prems(2) have "Suc n \<le> j" by simp
      moreover from Suc.hyps(2) have "d = length line_clk - Suc n" by simp
      ultimately show ?thesis using Suc.hyps(1) rest Suc.prems(3) by blast
    qed
  qed
qed

lemma body_hit:
  assumes "find_hit line_clk sc [next_start_idx st ..< length line_clk] = Inr (Some i)"
  shows "body line line_clk fill_by_prev sc st =
           Inr \<lparr>new_line = new_line st @
                   [if int i - clk_offset line line_clk < 0 then NaN
                    else line ! nat (int i - clk_offset line line_clk)],
                next_start_idx = i + 1\<rparr>"
proof (cases "int i - clk_offset line line_clk < 0")
  case True
  with assms show ?thesis by (simp add: body_def)
next
  case False
  have "i < length line_clk" using find_hit_range_Some(2) [OF assms] .
  with False have "nat (int i - clk_offset line line_clk) < length line"
    by (simp add: clk_offset_def)
  then have "getitem line (int (nat (int i - clk_offset line line_clk)))
               = Inr (line ! nat (int i - clk_offset line line_clk))"
    by (rule getitem_in_range)
  with False have "getitem line (int i - clk_offset line line_clk)
               = Inr (line ! nat (int i - clk_offset line line_clk))"
    by simp
  with False assms show ?thesis by (simp add: body_def)
qed

lemma body_miss:
  assumes "find_hit line_clk sc [next_start_idx st ..< length line_clk] = Inr None"
  shows "body line line_clk fill_by_prev sc st =
           Inr (st\<lparr>new_line := new_line st @
                   [if new_line st \<noteq> [] \<and> fill_by_prev then last (new_line st) else NaN]\<rparr>)"
  using assms by (simp add: body_def getitem_last)

lemma body_total: "\<exists>st'. body line line_clk fill_by_prev sc st = Inr st'"
proof -
  obtain r where r: "find_hit line_clk sc [next_start_idx st ..< length line_clk] = Inr r"
    using find_hit_range_total by blast
  show ?thesis
  proof (cases r)
    case None
    with r show ?thesis by (simp add: body_miss)
  next
    case (Some i)
    with r show ?thesis by (simp add: body_hit)
  qed
qed

lemma body_step:
  assumes "body line line_clk fill_by_prev sc st = Inr st'"
  shows "\<exists>v. new_line st' = new_line st @ [v]" and "next_start_idx st \<le> next_start_idx st'"
    and "next_start_idx st' \<le> max (next_start_idx st) (length line_clk)"
proof -
  obtain r where r: "find_hit line_clk sc [next_start_idx st ..< length line_clk] = Inr r"
    using find_hit_range_total by blast
  have "(\<exists>v. new_line st' = new_line st @ [v]) \<and> next_start_idx st \<le> next_start_idx st'
     \<and> next_start_idx st' \<le> max (next_start_idx st) (length line_clk)"
  proof (cases r)
    case None
    with r assms show ?thesis by (auto simp: body_miss)
  next
    case (Some i)
    with r have h: "find_hit line_clk sc [next_start_idx st ..< length line_clk] = Inr (Some i)"
      by simp
    from find_hit_range_Some(1,2) [OF h] assms show ?thesis
      by (auto simp: body_hit [OF h])
  qed
  then show "\<exists>v. new_line st' = new_line st @ [v]" and "next_start_idx st \<le> next_start_idx st'"
    and "next_start_idx st' \<le> max (next_start_idx st) (length line_clk)"
    by auto
qed

lemma loop_append:
  "loop line line_clk fill_by_prev (xs @ ys) st =
     (case loop line line_clk fill_by_prev xs st of
        Inl e \<Rightarrow> Inl e
      | Inr st' \<Rightarrow> loop line line_clk fill_by_prev ys st')"
  by (induction xs arbitrary: st) (auto split: sum.splits)

lemma loop_total: "\<exists>st'. loop line line_clk fill_by_prev mc st = Inr st'"
proof (induction mc arbitrary: st)
  case Nil
  show ?case by simp
next
  case (Cons sc rest)
  obtain st1 where "body line line_clk fill_by_prev sc st = Inr st1"
    using body_total by blast
  with Cons [of st1] show ?case by simp
qed

lemma loop_new_line:
  "loop line line_clk fill_by_prev mc st = Inr st'
     \<Longrightarrow> \<exists>vs. new_line st' = new_line st @ vs \<and> length vs = length mc"
proof (induction mc arbitrary: st)
  case Nil
  then show ?case by simp
next
  case (Cons sc rest)
  obtain st1 where b: "body line line_clk fill_by_prev sc st = Inr st1"
    using body_total by blast
  with Cons.prems have "loop line line_clk fill_by_prev rest st1 = Inr st'" by simp
  from Cons.IH [OF this] obtain vs where
    vs: "new_line st' = new_line st1 @ vs" "length vs = length rest" by blast
  from body_step(1) [OF b] obtain v where "new_line st1 = new_line st @ [v]" ..
  with vs have "new_line st' = new_line st @ (v # vs) \<and> length (v # vs) = length (sc # rest)"
    by simp
  then show ?case by blast
qed

lemma loop_cursor_mono:
  "loop line line_clk fill_by_prev mc st = Inr st' \<Longrightarrow> next_start_idx st \<le> next_start_idx st'"
proof (induction mc arbitrary: st)
  case Nil
  then show ?case by simp
next
  case (Cons sc rest)
  obtain st1 where b: "body line line_clk fill_by_prev sc st = Inr st1"
    using body_total by blast
  with Cons.prems have "loop line line_clk fill_by_prev rest st1 = Inr st'" by simp
  from Cons.IH [OF this] body_step(2) [OF b] show ?case by simp
qed

section \<open>The outer loop\<close>

lemma loop_take:
  assumes "loop line line_clk fill_by_prev mc st = Inr st'"
  shows "\<exists>s. loop line line_clk fill_by_prev (take k mc) st = Inr s
           \<and> new_line s = take (length (new_line st) + k) (new_line st')
           \<and> loop line line_clk fill_by_prev (drop k mc) s = Inr st'"
proof -
  obtain s where s: "loop line line_clk fill_by_prev (take k mc) st = Inr s"
    using loop_total by blast
  have "loop line line_clk fill_by_prev (take k mc @ drop k mc) st = Inr st'"
    using assms by simp
  then have rest: "loop line line_clk fill_by_prev (drop k mc) s = Inr st'"
    unfolding loop_append using s by simp
  from loop_new_line [OF s] obtain vs where
    vs: "new_line s = new_line st @ vs" "length vs = length (take k mc)" by blast
  from loop_new_line [OF rest] obtain ws where
    ws: "new_line st' = new_line s @ ws" "length ws = length (drop k mc)" by blast
  have "length (new_line s) = length (new_line st) + min (length mc) k"
    using vs by simp
  then have "take (length (new_line st) + k) (new_line st') = new_line s"
    using ws by (cases "k \<le> length mc") (simp_all add: min_def)
  with s rest show ?thesis by auto
qed

lemma convert_Some:
  "\<exists>st. loop line line_clk fill_by_prev mc init_state = Inr st
        \<and> convert_to_master_clock line line_clk (Some mc) fill_by_prev = Inr (new_line st)
        \<and> length (new_line st) = length mc"
proof -
  obtain st where st: "loop line line_clk fill_by_prev mc init_state = Inr st"
    using loop_total by blast
  from loop_new_line [OF st] have "length (new_line st) = length mc"
    by (auto simp: init_state_def)
  with st show ?thesis by (simp add: convert_to_master_clock_def)
qed

lemma iteration:
  assumes k: "k < length mc"
  shows "\<exists>s s' out.
           state_after line line_clk fill_by_prev mc k = Inr s
         \<and> body line line_clk fill_by_prev (mc ! k) s = Inr s'
         \<and> state_after line line_clk fill_by_prev mc (Suc k) = Inr s'
         \<and> convert_to_master_clock line line_clk (Some mc) fill_by_prev = Inr out
         \<and> length out = length mc
         \<and> new_line s = take k out
         \<and> new_line s' = take (Suc k) out"
proof -
  obtain st where st: "loop line line_clk fill_by_prev mc init_state = Inr st"
    and out: "convert_to_master_clock line line_clk (Some mc) fill_by_prev = Inr (new_line st)"
    and len: "length (new_line st) = length mc"
    using convert_Some by blast
  from loop_take [OF st, of k] obtain s where
    s: "loop line line_clk fill_by_prev (take k mc) init_state = Inr s"
    and nl: "new_line s = take k (new_line st)"
    by (auto simp: init_state_def)
  from loop_take [OF st, of "Suc k"] obtain s' where
    s': "loop line line_clk fill_by_prev (take (Suc k) mc) init_state = Inr s'"
    and nl': "new_line s' = take (Suc k) (new_line st)"
    by (auto simp: init_state_def)
  have "take (Suc k) mc = take k mc @ [mc ! k]"
    using k by (rule take_Suc_conv_app_nth)
  with s' have "loop line line_clk fill_by_prev (take k mc @ [mc ! k]) init_state = Inr s'"
    by simp
  then have "loop line line_clk fill_by_prev [mc ! k] s = Inr s'"
    unfolding loop_append using s by simp
  then have b: "body line line_clk fill_by_prev (mc ! k) s = Inr s'"
    by (simp split: sum.splits)
  from s s' b out len nl nl' show ?thesis
    unfolding state_after_def by blast
qed

lemma nth_of_snoc_prefix:
  assumes "k < length out" and "take (Suc k) out = take k out @ [v]"
  shows "out ! k = v"
proof -
  have "out ! k = take (Suc k) out ! k" by simp
  also have "\<dots> = (take k out @ [v]) ! k" using assms(2) by simp
  also have "\<dots> = v" using assms(1) by (simp add: nth_append)
  finally show ?thesis .
qed

lemma hit_at_iteration:
  assumes k: "k < length mc"
    and hit: "hit_at line line_clk fill_by_prev mc k = Inr (Some i)"
  shows "\<exists>s out.
           state_after line line_clk fill_by_prev mc k = Inr s
         \<and> find_hit line_clk (mc ! k) [next_start_idx s ..< length line_clk] = Inr (Some i)
         \<and> state_after line line_clk fill_by_prev mc (Suc k)
             = Inr \<lparr>new_line = new_line s @
                     [if int i - clk_offset line line_clk < 0 then NaN
                      else line ! nat (int i - clk_offset line line_clk)],
                   next_start_idx = i + 1\<rparr>
         \<and> convert_to_master_clock line line_clk (Some mc) fill_by_prev = Inr out
         \<and> length out = length mc
         \<and> out ! k = (if int i - clk_offset line line_clk < 0 then NaN
                       else line ! nat (int i - clk_offset line line_clk))"
proof -
  from iteration [OF k] obtain s s' out where
    s: "state_after line line_clk fill_by_prev mc k = Inr s"
    and b: "body line line_clk fill_by_prev (mc ! k) s = Inr s'"
    and s': "state_after line line_clk fill_by_prev mc (Suc k) = Inr s'"
    and out: "convert_to_master_clock line line_clk (Some mc) fill_by_prev = Inr out"
    and len: "length out = length mc"
    and nl: "new_line s = take k out"
    and nl': "new_line s' = take (Suc k) out"
    by blast
  from hit s have h: "find_hit line_clk (mc ! k) [next_start_idx s ..< length line_clk] = Inr (Some i)"
    by (simp add: hit_at_def)
  let ?v = "if int i - clk_offset line line_clk < 0 then NaN
            else line ! nat (int i - clk_offset line line_clk)"
  from body_hit [OF h, of line fill_by_prev] b
  have eq: "s' = \<lparr>new_line = new_line s @ [?v], next_start_idx = i + 1\<rparr>"
    by simp
  then have "new_line s' = new_line s @ [?v]" by simp
  then have "take (Suc k) out = take k out @ [?v]" unfolding nl nl' .
  with k len have "out ! k = ?v" by (intro nth_of_snoc_prefix) simp_all
  with s h s' eq out len show ?thesis by blast
qed

lemma state_after_mono:
  assumes jk: "j \<le> k"
  shows "\<exists>s t. state_after line line_clk fill_by_prev mc j = Inr s
             \<and> state_after line line_clk fill_by_prev mc k = Inr t
             \<and> next_start_idx s \<le> next_start_idx t"
proof -
  obtain t where t: "loop line line_clk fill_by_prev (take k mc) init_state = Inr t"
    using loop_total by blast
  from loop_take [OF t, of j] obtain s where
    s: "loop line line_clk fill_by_prev (take j (take k mc)) init_state = Inr s"
    and rest: "loop line line_clk fill_by_prev (drop j (take k mc)) s = Inr t"
    by blast
  from jk have "take j (take k mc) = take j mc" by (simp add: min_def)
  with s have "state_after line line_clk fill_by_prev mc j = Inr s"
    by (simp add: state_after_def)
  moreover from t have "state_after line line_clk fill_by_prev mc k = Inr t"
    by (simp add: state_after_def)
  moreover from loop_cursor_mono [OF rest] have "next_start_idx s \<le> next_start_idx t" .
  ultimately show ?thesis by blast
qed

lemma hits_increase:
  assumes jk: "j < k" and k: "k < length mc"
    and a: "hit_at line line_clk fill_by_prev mc j = Inr (Some a)"
    and b: "hit_at line line_clk fill_by_prev mc k = Inr (Some b)"
  shows "a < b"
proof -
  from jk k have j: "j < length mc" by simp
  from hit_at_iteration [OF j a] have
    sj: "state_after line line_clk fill_by_prev mc (Suc j)
           = Inr \<lparr>new_line = new_line (projr (state_after line line_clk fill_by_prev mc j)) @
                     [if int a - clk_offset line line_clk < 0 then NaN
                      else line ! nat (int a - clk_offset line line_clk)],
                   next_start_idx = a + 1\<rparr>"
    by auto
  from hit_at_iteration [OF k b] obtain t where
    t: "state_after line line_clk fill_by_prev mc k = Inr t"
    and hb: "find_hit line_clk (mc ! k) [next_start_idx t ..< length line_clk] = Inr (Some b)"
    by blast
  from jk have "Suc j \<le> k" by simp
  from state_after_mono [OF this, of line line_clk fill_by_prev mc] sj t
  have "a + 1 \<le> next_start_idx t" by simp
  moreover from find_hit_range_Some(1) [OF hb] have "next_start_idx t \<le> b" .
  ultimately show ?thesis by simp
qed

lemma body_values:
  assumes b: "body line line_clk fill_by_prev sc st = Inr st'"
    and inv: "set (new_line st) \<subseteq> insert NaN (set line)"
  shows "set (new_line st') \<subseteq> insert NaN (set line)"
proof -
  obtain r where r: "find_hit line_clk sc [next_start_idx st ..< length line_clk] = Inr r"
    using find_hit_range_total by blast
  show ?thesis
  proof (cases r)
    case None
    with r have "find_hit line_clk sc [next_start_idx st ..< length line_clk] = Inr None"
      by simp
    from body_miss [OF this, of line fill_by_prev] b
    have "new_line st' = new_line st @
            [if new_line st \<noteq> [] \<and> fill_by_prev then last (new_line st) else NaN]"
      by auto
    moreover have "last (new_line st) \<in> insert NaN (set line)" if "new_line st \<noteq> []"
      using that inv last_in_set by blast
    ultimately show ?thesis using inv by auto
  next
    case (Some i)
    with r have h: "find_hit line_clk sc [next_start_idx st ..< length line_clk] = Inr (Some i)"
      by simp
    let ?idx = "int i - clk_offset line line_clk"
    from body_hit [OF h, of line fill_by_prev] b
    have nl: "new_line st' = new_line st @ [if ?idx < 0 then NaN else line ! nat ?idx]"
      by auto
    have "i < length line_clk" using find_hit_range_Some(2) [OF h] .
    then have "nat ?idx < length line" if "\<not> ?idx < 0"
      using that by (simp add: clk_offset_def)
    then have "line ! nat ?idx \<in> set line" if "\<not> ?idx < 0"
      using that by simp
    with nl inv show ?thesis by auto
  qed
qed

lemma loop_values:
  "loop line line_clk fill_by_prev mc st = Inr st'
     \<Longrightarrow> set (new_line st) \<subseteq> insert NaN (set line)
     \<Longrightarrow> set (new_line st') \<subseteq> insert NaN (set line)"
proof (induction mc arbitrary: st)
  case Nil
  then show ?case by simp
next
  case (Cons sc rest)
  obtain st1 where b: "body line line_clk fill_by_prev sc st = Inr st1"
    using body_total by blast
  with Cons.prems(1) have l: "loop line line_clk fill_by_prev rest st1 = Inr st'" by simp
  from body_values [OF b Cons.prems(2)] Cons.IH [OF l] show ?case by simp
qed

lemma py_eq_refl: "x \<noteq> NaN \<Longrightarrow> py_eq x x"
  by (cases x) simp_all

lemma loop_own_clock:
  assumes len: "length line = length line_clk"
    and nan: "NaN \<notin> set line_clk"
  shows "n \<le> length line_clk \<Longrightarrow>
         loop line line_clk fill_by_prev (drop n line_clk)
           \<lparr>new_line = take n line, next_start_idx = n\<rparr>
         = Inr \<lparr>new_line = line, next_start_idx = length line_clk\<rparr>"
proof (induction "length line_clk - n" arbitrary: n)
  case 0
  with len show ?case by simp
next
  case (Suc d)
  then have n: "n < length line_clk" by simp
  let ?st = "\<lparr>new_line = take n line, next_start_idx = n\<rparr>"
  from n nan have "line_clk ! n \<noteq> NaN" by (metis nth_mem)
  then have eq: "py_eq (line_clk ! n) (line_clk ! n)" by (rule py_eq_refl)
  from n have "[n ..< length line_clk] = n # [Suc n ..< length line_clk]"
    by (rule upt_conv_Cons)
  with find_hit_at_head [OF n eq]
  have "find_hit line_clk (line_clk ! n) [next_start_idx ?st ..< length line_clk] = Inr (Some n)"
    by simp
  from body_hit [OF this, of line fill_by_prev] len n
  have b: "body line line_clk fill_by_prev (line_clk ! n) ?st
             = Inr \<lparr>new_line = take (Suc n) line, next_start_idx = Suc n\<rparr>"
    by (simp add: clk_offset_def take_Suc_conv_app_nth)
  from Suc.hyps(2) have d: "d = length line_clk - Suc n" by simp
  from n have "Suc n \<le> length line_clk" by simp
  from Suc.hyps(1) [OF d this] b Cons_nth_drop_Suc [OF n, symmetric]
  show ?case by simp
qed

lemma py_eq_Num: "py_eq a b \<Longrightarrow> \<exists>x. a = Num x \<and> b = Num x"
  by (cases a; cases b) simp_all

lemma py_gt_Num: "py_gt a b \<Longrightarrow> \<exists>x y. a = Num x \<and> b = Num y \<and> y < x"
  by (cases a; cases b) simp_all

lemma ascending_nth:
  "ascending xs \<Longrightarrow> i < j \<Longrightarrow> j < length xs \<Longrightarrow> py_gt (xs ! j) (xs ! i)"
  by (simp add: ascending_def sorted_wrt_iff_nth_less)

lemma find_hit_first:
  assumes "i < length line_clk" and "py_eq sc (line_clk ! i)"
    and "\<forall>j. n \<le> j \<and> j < i \<longrightarrow> \<not> py_eq sc (line_clk ! j) \<and> \<not> py_gt (line_clk ! j) sc"
  shows "n \<le> i \<Longrightarrow> find_hit line_clk sc [n ..< length line_clk] = Inr (Some i)"
  using assms(3)
proof (induction "i - n" arbitrary: n)
  case 0
  then have "n = i" by simp
  with assms(1) have "[n ..< length line_clk] = i # [Suc i ..< length line_clk]"
    by (simp add: upt_conv_Cons)
  with find_hit_at_head [OF assms(1,2)] show ?case by simp
next
  case (Suc d)
  then have ni: "n < i" by simp
  with assms(1) have n: "n < length line_clk" by simp
  then have upt: "[n ..< length line_clk] = n # [Suc n ..< length line_clk]"
    by (rule upt_conv_Cons)
  from Suc.prems(2) ni have skip: "\<not> py_eq sc (line_clk ! n)" "\<not> py_gt (line_clk ! n) sc"
    by simp_all
  have "find_hit line_clk sc [Suc n ..< length line_clk] = Inr (Some i)"
  proof (rule Suc.hyps(1))
    show "d = i - Suc n" using Suc.hyps(2) by simp
    show "Suc n \<le> i" using ni by simp
    show "\<forall>j. Suc n \<le> j \<and> j < i \<longrightarrow> \<not> py_eq sc (line_clk ! j) \<and> \<not> py_gt (line_clk ! j) sc"
      using Suc.prems(2) by simp
  qed
  with skip n show ?case unfolding upt by (simp add: getitem_in_range)
qed

lemma cursor_after_hit:
  "k \<le> length mc \<Longrightarrow> state_after line line_clk fill_by_prev mc k = Inr s
     \<Longrightarrow> next_start_idx s = 0
         \<or> (\<exists>k'<k. next_start_idx s \<le> length line_clk
                  \<and> py_eq (mc ! k') (line_clk ! (next_start_idx s - 1)))"
proof (induction k arbitrary: s)
  case 0
  then have "s = init_state" by (simp add: state_after_def)
  then show ?case by (simp add: init_state_def)
next
  case (Suc k)
  then have k: "k < length mc" by simp
  from iteration [OF k, of line line_clk fill_by_prev] Suc.prems(2) obtain s0 where
    s0: "state_after line line_clk fill_by_prev mc k = Inr s0"
    and b: "body line line_clk fill_by_prev (mc ! k) s0 = Inr s"
    by auto
  from k have "k \<le> length mc" by simp
  note ih = Suc.IH [OF this s0]
  obtain r where r: "find_hit line_clk (mc ! k) [next_start_idx s0 ..< length line_clk] = Inr r"
    using find_hit_range_total by blast
  show ?case
  proof (cases r)
    case None
    with r b have "next_start_idx s = next_start_idx s0" by (auto simp: body_miss)
    with ih show ?thesis using less_Suc_eq by auto
  next
    case (Some i)
    with r have h: "find_hit line_clk (mc ! k) [next_start_idx s0 ..< length line_clk] = Inr (Some i)"
      by simp
    from body_hit [OF h, of line fill_by_prev] b have "next_start_idx s = i + 1" by auto
    moreover from find_hit_range_Some [OF h] have "i < length line_clk" "py_eq (mc ! k) (line_clk ! i)"
      by simp_all
    ultimately show ?thesis by auto
  qed
qed

lemma match_is_hit:
  assumes k: "k < length mc" and amc: "ascending mc" and aclk: "ascending line_clk"
    and i: "i < length line_clk" and eq: "py_eq (mc ! k) (line_clk ! i)"
  shows "hit_at line line_clk fill_by_prev mc k = Inr (Some i)"
proof -
  from iteration [OF k, of line line_clk fill_by_prev] obtain s where
    s: "state_after line line_clk fill_by_prev mc k = Inr s" by blast
  from py_eq_Num [OF eq] obtain x where x: "mc ! k = Num x" "line_clk ! i = Num x" by blast
  have below: "py_gt (Num x) (line_clk ! j)" if "j < i" for j
    using ascending_nth [OF aclk that i] x by simp
  have cursor: "next_start_idx s \<le> i"
  proof (rule ccontr)
    assume "\<not> next_start_idx s \<le> i"
    then have gt: "i < next_start_idx s" by simp
    with cursor_after_hit [OF less_imp_le [OF k] s] obtain k' where
      k': "k' < k" and le: "next_start_idx s \<le> length line_clk"
      and e: "py_eq (mc ! k') (line_clk ! (next_start_idx s - 1))"
      by auto
    from ascending_nth [OF amc k' k] x have "py_gt (Num x) (mc ! k')" by simp
    with py_eq_Num [OF e] obtain y where
      y: "line_clk ! (next_start_idx s - 1) = Num y" "y < x" by auto
    show False
    proof (cases "i = next_start_idx s - 1")
      case True
      with x y show False by simp
    next
      case False
      with gt have "i < next_start_idx s - 1" by simp
      moreover from gt le have "next_start_idx s - 1 < length line_clk" by simp
      ultimately have "py_gt (line_clk ! (next_start_idx s - 1)) (line_clk ! i)"
        using ascending_nth [OF aclk] by blast
      with x y show False by simp
    qed
  qed
  have "\<forall>j. next_start_idx s \<le> j \<and> j < i \<longrightarrow>
          \<not> py_eq (mc ! k) (line_clk ! j) \<and> \<not> py_gt (line_clk ! j) (mc ! k)"
  proof (intro allI impI)
    fix j assume "next_start_idx s \<le> j \<and> j < i"
    then have "py_gt (Num x) (line_clk ! j)" using below by simp
    from py_gt_Num [OF this] x show "\<not> py_eq (mc ! k) (line_clk ! j) \<and> \<not> py_gt (line_clk ! j) (mc ! k)"
      by auto
  qed
  from find_hit_first [OF i eq this cursor] s show ?thesis
    by (simp add: hit_at_def)
qed

section \<open>The store model refines the list model\<close>

lemma body_h_refines:
  assumes nl: "nl < length h" and "line \<noteq> nl" and "line_clk \<noteq> nl"
  shows "body_h h line line_clk nl (clk_offset (h ! line) (h ! line_clk)) fill_by_prev sc n =
           (case body (h ! line) (h ! line_clk) fill_by_prev sc
                   \<lparr>new_line = h ! nl, next_start_idx = n\<rparr> of
              Inl e \<Rightarrow> Inl e
            | Inr st' \<Rightarrow> Inr (h[nl := new_line st'], next_start_idx st'))"
  by (simp add: body_h_def body_def append_h_def Let_def split: sum.splits option.splits)

lemma loop_h_refines:
  assumes nl: "nl < length h" and l: "line \<noteq> nl" and c: "line_clk \<noteq> nl" and m: "master \<noteq> nl"
    and pure: "loop (h ! line) (h ! line_clk) fill_by_prev (drop k (h ! master))
                 \<lparr>new_line = h ! nl, next_start_idx = n\<rparr> = Inr st'"
  shows "loop_h h line line_clk master nl (clk_offset (h ! line) (h ! line_clk)) fill_by_prev k n
           = Some (Inr nl, h[nl := new_line st'])"
  using nl pure
proof (induction "length (h ! master) - k" arbitrary: h k n)
  case 0
  then have "drop k (h ! master) = []" by simp
  with "0.prems" have "st' = \<lparr>new_line = h ! nl, next_start_idx = n\<rparr>" by simp
  then have "h[nl := new_line st'] = h" by simp
  with "0.hyps" show ?case by (subst loop_h.simps) simp
next
  case (Suc d)
  then have k: "k < length (h ! master)" by simp
  let ?st = "\<lparr>new_line = h ! nl, next_start_idx = n\<rparr>"
  obtain st1 where b: "body (h ! line) (h ! line_clk) fill_by_prev (h ! master ! k) ?st = Inr st1"
    using body_total by blast
  from k have "drop k (h ! master) = h ! master ! k # drop (Suc k) (h ! master)"
    by (simp add: Cons_nth_drop_Suc)
  with Suc.prems(2) b have rest:
    "loop (h ! line) (h ! line_clk) fill_by_prev (drop (Suc k) (h ! master)) st1 = Inr st'"
    by simp
  let ?h1 = "h[nl := new_line st1]"
  have same: "?h1 ! line = h ! line" "?h1 ! line_clk = h ! line_clk" "?h1 ! master = h ! master"
    using l c m by simp_all
  have nl1: "nl < length ?h1" using Suc.prems(1) by simp
  have at_nl: "?h1 ! nl = new_line st1" using Suc.prems(1) by simp
  have st1: "\<lparr>new_line = ?h1 ! nl, next_start_idx = next_start_idx st1\<rparr> = st1"
    using at_nl by simp
  have d: "d = length (?h1 ! master) - Suc k" using Suc.hyps(2) same by simp
  have "loop (?h1 ! line) (?h1 ! line_clk) fill_by_prev (drop (Suc k) (?h1 ! master))
          \<lparr>new_line = ?h1 ! nl, next_start_idx = next_start_idx st1\<rparr> = Inr st'"
    using rest same st1 by simp
  from Suc.hyps(1) [OF d nl1 this]
  have ih: "loop_h ?h1 line line_clk master nl (clk_offset (h ! line) (h ! line_clk))
              fill_by_prev (Suc k) (next_start_idx st1)
            = Some (Inr nl, h[nl := new_line st'])"
    using same by simp
  have "body_h h line line_clk nl (clk_offset (h ! line) (h ! line_clk)) fill_by_prev
          (h ! master ! k) n = Inr (?h1, next_start_idx st1)"
    using body_h_refines [OF Suc.prems(1) l c] b by simp
  with k ih show ?case by (subst loop_h.simps) simp
qed

lemma convert_h_Some:
  assumes l: "line < length h" and c: "line_clk < length h" and m: "master < length h"
  shows "\<exists>out. convert_to_master_clock (h ! line) (h ! line_clk) (Some (h ! master)) fill_by_prev
                 = Inr out
              \<and> convert_to_master_clock_h h line line_clk (Some master) fill_by_prev
                 = Some (Inr (length h), h @ [out])"
proof -
  let ?h1 = "h @ [[]]"
  obtain st where st: "loop (h ! line) (h ! line_clk) fill_by_prev (h ! master) init_state = Inr st"
    and out: "convert_to_master_clock (h ! line) (h ! line_clk) (Some (h ! master)) fill_by_prev
                = Inr (new_line st)"
    using convert_Some by blast
  have same: "?h1 ! line = h ! line" "?h1 ! line_clk = h ! line_clk" "?h1 ! master = h ! master"
    using l c m by (simp_all add: nth_append)
  have fresh: "length h < length ?h1" "line \<noteq> length h" "line_clk \<noteq> length h"
    "master \<noteq> length h"
    using l c m by simp_all
  have "loop (?h1 ! line) (?h1 ! line_clk) fill_by_prev (drop 0 (?h1 ! master))
          \<lparr>new_line = ?h1 ! length h, next_start_idx = 0\<rparr> = Inr st"
    using st same by (simp add: init_state_def)
  from loop_h_refines [OF fresh this]
  have "loop_h ?h1 line line_clk master (length h) (clk_offset (h ! line) (h ! line_clk))
          fill_by_prev 0 0 = Some (Inr (length h), h @ [new_line st])"
    using same by simp
  then have "convert_to_master_clock_h h line line_clk (Some master) fill_by_prev
               = Some (Inr (length h), h @ [new_line st])"
    by (simp add: convert_to_master_clock_h_def new_list_def clk_offset_def)
  with out show ?thesis by blast
qed

section \<open>The lookup loop\<close>

lemma collect_founds_filter:
  "collect_founds pid objs founds
     = founds @ filter (\<lambda>obj. py_equal (plotid (plotinfo obj)) pid) objs"
  by (induction objs arbitrary: founds) simp_all

lemma count_list_map_filter:
  "count_list (map f xs) y = length (filter (\<lambda>x. f x = y) xs)"
  by (induction xs) simp_all

lemma py_equal_nan: "\<not> py_equal x (PyNum NaN)"
  by (cases x) simp_all

lemma py_equal_iff: "pid \<noteq> PyNum NaN \<Longrightarrow> py_equal x pid \<longleftrightarrow> x = pid"
proof (cases pid)
  case PyNone
  then show ?thesis by (cases x) simp_all
next
  case (PyStr t)
  then show ?thesis by (cases x) simp_all
next
  case (PyNum b)
  assume "pid \<noteq> PyNum NaN"
  with PyNum obtain n where "b = Num n" by (cases b) simp_all
  with PyNum show ?thesis
  proof (cases x)
    case (PyNum a)
    with \<open>pid = PyNum b\<close> \<open>b = Num n\<close> show ?thesis by (cases a) simp_all
  qed simp_all
qed

section \<open>Properties of convert_to_master_clock\<close>

text \<open>
  C1 (as amended). With a master clock that is \<^verbatim>\<open>None\<close> the function returns the input
  line unchanged. With a master clock that is an empty list the loop body never runs and
  the result is the empty list, whatever the line is.
\<close>

theorem pass_through_none:
  "convert_to_master_clock line line_clk None fill_by_prev = Inr line
   \<and> convert_to_master_clock line line_clk (Some []) fill_by_prev = Inr []"
  by (simp add: convert_to_master_clock_def init_state_def)

text \<open>
  C1 as stated fails for the empty master clock: the line \<open>[1]\<close> with clock \<open>[10]\<close>
  comes back as \<open>[]\<close>, not as \<open>[1]\<close>.
\<close>

theorem pass_through_empty_counterexample:
  "convert_to_master_clock [Num (1::int)] [Num 10] (Some []) False = Inr []
   \<and> convert_to_master_clock [Num (1::int)] [Num 10] (Some []) False \<noteq> Inr [Num 1]"
  by (simp add: convert_to_master_clock_def init_state_def)

text \<open>
  C2. For a master clock of length \<open>M\<close> that is not \<^verbatim>\<open>None\<close> the function returns a list
  of length exactly \<open>M\<close>. The values are emitted in the order of the master timestamps:
  the result for the first \<open>k\<close> master timestamps is the first \<open>k\<close> values of the result.
\<close>

theorem output_length:
  "\<exists>out. convert_to_master_clock line line_clk (Some mc) fill_by_prev = Inr out
     \<and> length out = length mc
     \<and> (\<forall>k. convert_to_master_clock line line_clk (Some (take k mc)) fill_by_prev
              = Inr (take k out))"
proof -
  obtain st where st: "loop line line_clk fill_by_prev mc init_state = Inr st"
    and out: "convert_to_master_clock line line_clk (Some mc) fill_by_prev = Inr (new_line st)"
    and len: "length (new_line st) = length mc"
    using convert_Some by blast
  have "convert_to_master_clock line line_clk (Some (take k mc)) fill_by_prev
          = Inr (take k (new_line st))" for k
  proof -
    from loop_take [OF st, of k] obtain s where
      "loop line line_clk fill_by_prev (take k mc) init_state = Inr s"
      "new_line s = take (length (new_line (init_state :: 'a loop_state)) + k) (new_line st)"
      by blast
    then show ?thesis by (simp add: convert_to_master_clock_def init_state_def)
  qed
  with out len show ?thesis by blast
qed

text \<open>
  C3. A master timestamp that equals (\<^verbatim>\<open>==\<close>) no entry of the line clock gets the value
  \<open>NaN\<close>, unless \<open>fill_by_prev\<close> is set and a value was emitted before: then it gets the
  value emitted just before it. The two examples of the claim follow.
\<close>

theorem no_match_fill:
  assumes k: "k < length mc"
    and no_match: "\<forall>v\<in>set line_clk. \<not> py_eq (mc ! k) v"
  shows "(\<exists>out. convert_to_master_clock line line_clk (Some mc) fill_by_prev = Inr out
            \<and> out ! k = (if fill_by_prev \<and> 0 < k then out ! (k - 1) else NaN))
         \<and> convert_to_master_clock [Num 1, Num 3] [Num 10, Num 30]
             (Some [Num (10::int), Num 20, Num 30]) False = Inr [Num 1, NaN, Num 3]
         \<and> convert_to_master_clock [Num 1, Num 3] [Num 10, Num 30]
             (Some [Num (10::int), Num 20, Num 30]) True = Inr [Num 1, Num 1, Num 3]"
proof -
  from iteration [OF k] obtain s s' out where
    b: "body line line_clk fill_by_prev (mc ! k) s = Inr s'"
    and out: "convert_to_master_clock line line_clk (Some mc) fill_by_prev = Inr out"
    and len: "length out = length mc"
    and nl: "new_line s = take k out"
    and nl': "new_line s' = take (Suc k) out"
    by blast
  have "find_hit line_clk (mc ! k) [next_start_idx s ..< length line_clk] = Inr None"
    using no_match by (intro find_hit_no_match) simp
  from body_miss [OF this, of line fill_by_prev] b have
    "new_line s' = new_line s @ [if new_line s \<noteq> [] \<and> fill_by_prev then last (new_line s) else NaN]"
    by auto
  then have
    snoc: "take (Suc k) out = take k out @ [if take k out \<noteq> [] \<and> fill_by_prev then last (take k out) else NaN]"
    unfolding nl nl' .
  have ne: "take k out \<noteq> [] \<longleftrightarrow> 0 < k" using k len by auto
  have "last (take k out) = out ! (k - 1)" if "0 < k"
  proof -
    from that k len have "take k out \<noteq> []" and "length (take k out) = k" by auto
    then have "last (take k out) = take k out ! (k - 1)" by (simp add: last_conv_nth)
    also have "\<dots> = out ! (k - 1)" using that by simp
    finally show ?thesis .
  qed
  with nth_of_snoc_prefix [OF _ snoc] k len ne
  have "out ! k = (if fill_by_prev \<and> 0 < k then out ! (k - 1) else NaN)"
    by auto
  moreover have "convert_to_master_clock [Num 1, Num 3] [Num 10, Num 30]
             (Some [Num (10::int), Num 20, Num 30]) False = Inr [Num 1, NaN, Num 3]"
    by code_simp
  moreover have "convert_to_master_clock [Num 1, Num 3] [Num 10, Num 30]
             (Some [Num (10::int), Num 20, Num 30]) True = Inr [Num 1, Num 1, Num 3]"
    by code_simp
  ultimately show ?thesis using out by blast
qed

theorem no_match_fill_witness:
  "(1::nat) < length [Num (10::int), Num 20, Num 30]
   \<and> \<not> py_eq ([Num (10::int), Num 20, Num 30] ! 1) (Num 10)
   \<and> \<not> py_eq ([Num (10::int), Num 20, Num 30] ! 1) (Num 30)
   \<and> (\<exists>out. convert_to_master_clock [Num 1, Num 3] [Num 10, Num 30]
                (Some [Num (10::int), Num 20, Num 30]) True = Inr out
             \<and> out ! 1 = out ! 0)"
  using no_match_fill [where k = 1 and mc = "[Num (10::int), Num 20, Num 30]"
      and line_clk = "[Num 10, Num 30]" and line = "[Num 1, Num 3]" and fill_by_prev = True]
  by simp

text \<open>
  C4 (as amended). When the scan made for master timestamp number \<open>k\<close> ends with an exact
  hit at clock index \<open>i\<close>, the value emitted for it is \<open>line[i - clk_offset]\<close>, and
  \<open>NaN\<close> when \<open>i - clk_offset\<close> is negative; the index is always below the length of
  the line. The hit is the first index at or after the cursor whose timestamp equals the
  master timestamp, and no timestamp between the cursor and it is greater than the master
  timestamp. When both clocks are ascending, every clock index whose timestamp equals the
  master timestamp is that hit. With clock \<open>[5,10,20]\<close> and line \<open>[100,200]\<close> the master
  clock \<open>[10,20]\<close> gives \<open>[100,200]\<close>, and a master clock that starts with \<open>5\<close> gives
  \<open>NaN\<close> there.
\<close>

theorem exact_hit_value:
  assumes k: "k < length mc"
  shows "(\<forall>i. hit_at line line_clk fill_by_prev mc k = Inr (Some i) \<longrightarrow>
            i < length line_clk
          \<and> py_eq (mc ! k) (line_clk ! i)
          \<and> int i - clk_offset line line_clk < int (length line)
          \<and> (\<exists>out. convert_to_master_clock line line_clk (Some mc) fill_by_prev = Inr out
                \<and> out ! k = (if int i - clk_offset line line_clk < 0 then NaN
                              else line ! nat (int i - clk_offset line line_clk)))
          \<and> (\<exists>s. state_after line line_clk fill_by_prev mc k = Inr s
                \<and> next_start_idx s \<le> i
                \<and> (\<forall>j. next_start_idx s \<le> j \<and> j < i \<longrightarrow>
                       \<not> py_eq (mc ! k) (line_clk ! j) \<and> \<not> py_gt (line_clk ! j) (mc ! k))))
         \<and> (\<forall>i. ascending mc \<and> ascending line_clk
                \<and> i < length line_clk \<and> py_eq (mc ! k) (line_clk ! i) \<longrightarrow>
              hit_at line line_clk fill_by_prev mc k = Inr (Some i))
         \<and> convert_to_master_clock [Num 100, Num 200] [Num 5, Num 10, Num 20]
             (Some [Num (10::int), Num 20]) False = Inr [Num 100, Num 200]
         \<and> convert_to_master_clock [Num 100, Num 200] [Num 5, Num 10, Num 20]
             (Some [Num (5::int), Num 10, Num 20]) False = Inr [NaN, Num 100, Num 200]"
proof -
  have "i < length line_clk
          \<and> py_eq (mc ! k) (line_clk ! i)
          \<and> int i - clk_offset line line_clk < int (length line)
          \<and> (\<exists>out. convert_to_master_clock line line_clk (Some mc) fill_by_prev = Inr out
                \<and> out ! k = (if int i - clk_offset line line_clk < 0 then NaN
                              else line ! nat (int i - clk_offset line line_clk)))
          \<and> (\<exists>s. state_after line line_clk fill_by_prev mc k = Inr s
                \<and> next_start_idx s \<le> i
                \<and> (\<forall>j. next_start_idx s \<le> j \<and> j < i \<longrightarrow>
                       \<not> py_eq (mc ! k) (line_clk ! j) \<and> \<not> py_gt (line_clk ! j) (mc ! k)))"
    if hit: "hit_at line line_clk fill_by_prev mc k = Inr (Some i)" for i
  proof -
    from hit_at_iteration [OF k hit] obtain s out where
      s: "state_after line line_clk fill_by_prev mc k = Inr s"
      and h: "find_hit line_clk (mc ! k) [next_start_idx s ..< length line_clk] = Inr (Some i)"
      and out: "convert_to_master_clock line line_clk (Some mc) fill_by_prev = Inr out"
      and v: "out ! k = (if int i - clk_offset line line_clk < 0 then NaN
                         else line ! nat (int i - clk_offset line line_clk))"
      by blast
    have cur: "next_start_idx s \<le> i" and i: "i < length line_clk"
      and eq: "py_eq (mc ! k) (line_clk ! i)"
      using find_hit_range_Some [OF h] by simp_all
    from i have idx: "int i - clk_offset line line_clk < int (length line)"
      by (simp add: clk_offset_def)
    have "\<forall>j. next_start_idx s \<le> j \<and> j < i \<longrightarrow>
            \<not> py_eq (mc ! k) (line_clk ! j) \<and> \<not> py_gt (line_clk ! j) (mc ! k)"
      using find_hit_skipped [OF h] by blast
    with s cur have "\<exists>s. state_after line line_clk fill_by_prev mc k = Inr s
                \<and> next_start_idx s \<le> i
                \<and> (\<forall>j. next_start_idx s \<le> j \<and> j < i \<longrightarrow>
                       \<not> py_eq (mc ! k) (line_clk ! j) \<and> \<not> py_gt (line_clk ! j) (mc ! k))"
      by blast
    moreover from out v have
      "\<exists>out. convert_to_master_clock line line_clk (Some mc) fill_by_prev = Inr out
                \<and> out ! k = (if int i - clk_offset line line_clk < 0 then NaN
                              else line ! nat (int i - clk_offset line line_clk))"
      by blast
    ultimately show ?thesis using i eq idx by blast
  qed
  moreover have "hit_at line line_clk fill_by_prev mc k = Inr (Some i)"
    if "ascending mc \<and> ascending line_clk \<and> i < length line_clk
          \<and> py_eq (mc ! k) (line_clk ! i)" for i
    using that match_is_hit [OF k] by blast
  moreover have "convert_to_master_clock [Num 100, Num 200] [Num 5, Num 10, Num 20]
             (Some [Num (10::int), Num 20]) False = Inr [Num 100, Num 200]"
    by code_simp
  moreover have "convert_to_master_clock [Num 100, Num 200] [Num 5, Num 10, Num 20]
             (Some [Num (5::int), Num 10, Num 20]) False = Inr [NaN, Num 100, Num 200]"
    by code_simp
  ultimately show ?thesis by blast
qed

theorem exact_hit_value_witness:
  "(0::nat) < length [Num (10::int), Num 20]
   \<and> ascending [Num (10::int), Num 20]
   \<and> ascending [Num (5::int), Num 10, Num 20]
   \<and> (1::nat) < length [Num (5::int), Num 10, Num 20]
   \<and> py_eq ([Num (10::int), Num 20] ! 0) ([Num (5::int), Num 10, Num 20] ! 1)
   \<and> hit_at [Num 100, Num 200] [Num 5, Num 10, Num 20] False [Num (10::int), Num 20] 0
       = Inr (Some 1)
   \<and> (\<exists>out. convert_to_master_clock [Num 100, Num 200] [Num 5, Num 10, Num 20]
               (Some [Num (10::int), Num 20]) False = Inr out
            \<and> out ! 0 = Num 100)"
proof -
  let ?clk = "[Num (5::int), Num 10, Num 20]"
  let ?mc = "[Num (10::int), Num 20]"
  let ?line = "[Num (100::int), Num 200]"
  have k: "(0::nat) < length ?mc" by simp
  have asc: "ascending ?mc" "ascending ?clk" by (simp_all add: ascending_def)
  have i: "(1::nat) < length ?clk" by simp
  have eq: "py_eq (?mc ! 0) (?clk ! 1)" by simp
  note inst = exact_hit_value [OF k, of ?line ?clk False]
  from inst have "\<forall>i. ascending ?mc \<and> ascending ?clk
                \<and> i < length ?clk \<and> py_eq (?mc ! 0) (?clk ! i) \<longrightarrow>
              hit_at ?line ?clk False ?mc 0 = Inr (Some i)"
    by blast
  with asc i eq have hit: "hit_at ?line ?clk False ?mc 0 = Inr (Some 1)"
    by blast
  from inst hit have "\<exists>out. convert_to_master_clock ?line ?clk (Some ?mc) False = Inr out
                \<and> out ! 0 = (if int 1 - clk_offset ?line ?clk < 0 then NaN
                              else ?line ! nat (int 1 - clk_offset ?line ?clk))"
    by blast
  then have "\<exists>out. convert_to_master_clock ?line ?clk (Some ?mc) False = Inr out
                \<and> out ! 0 = Num 100"
    by (simp add: clk_offset_def)
  with k asc i eq hit show ?thesis by blast
qed

text \<open>
  C4 as stated fails for a match that the scan does not reach. With line \<open>[1]\<close>, clock
  \<open>[10]\<close> and master clock \<open>[10,10]\<close> the second master timestamp equals clock entry 0
  and \<open>0 - clk_offset = 0\<close> is not negative, yet the value emitted for it is \<open>NaN\<close>, not
  \<open>line[0] = 1\<close>: the first master timestamp consumed that entry.
\<close>

theorem exact_match_not_reached_counterexample:
  "py_eq ([Num (10::int), Num 10] ! 1) ([Num (10::int)] ! 0)
   \<and> int 0 - clk_offset [Num (1::int)] [Num (10::int)] = 0
   \<and> convert_to_master_clock [Num 1] [Num 10] (Some [Num (10::int), Num 10]) False
       = Inr [Num 1, NaN]
   \<and> [Num (1::int), NaN] ! 1 \<noteq> [Num 1] ! nat (int 0 - clk_offset [Num (1::int)] [Num (10::int)])
   \<and> hit_at [Num 1] [Num 10] False [Num (10::int), Num 10] 1 = Inr None"
  by code_simp

text \<open>
  C5. The cursor \<open>next_start_idx\<close> never moves backward: after \<open>j\<close> master timestamps
  it is at most what it is after \<open>k \<ge> j\<close> of them. The clock indices of exact hits grow
  strictly from one master timestamp to a later one, so a clock entry that was consumed
  is never matched again; \<open>[10,10]\<close> against clock \<open>[10,10]\<close> and line \<open>[1,2]\<close> gives
  \<open>[1,2]\<close>.
\<close>

theorem cursor_monotone:
  assumes jk: "j \<le> k"
  shows "(\<exists>s t. state_after line line_clk fill_by_prev mc j = Inr s
             \<and> state_after line line_clk fill_by_prev mc k = Inr t
             \<and> next_start_idx s \<le> next_start_idx t)
         \<and> (\<forall>a b. j < k \<and> k < length mc
                 \<and> hit_at line line_clk fill_by_prev mc j = Inr (Some a)
                 \<and> hit_at line line_clk fill_by_prev mc k = Inr (Some b) \<longrightarrow> a < b)
         \<and> convert_to_master_clock [Num 1, Num 2] [Num 10, Num 10]
             (Some [Num (10::int), Num 10]) False = Inr [Num 1, Num 2]"
proof -
  have "convert_to_master_clock [Num 1, Num 2] [Num 10, Num 10]
             (Some [Num (10::int), Num 10]) False = Inr [Num 1, Num 2]"
    by code_simp
  with state_after_mono [OF jk, of line line_clk fill_by_prev mc] hits_increase
  show ?thesis by blast
qed

theorem cursor_monotone_witness:
  "(0::nat) \<le> 1 \<and> (0::nat) < 1 \<and> (1::nat) < length [Num (10::int), Num 10]
   \<and> hit_at [Num 1, Num 2] [Num 10, Num 10] False [Num (10::int), Num 10] 0 = Inr (Some 0)
   \<and> hit_at [Num 1, Num 2] [Num 10, Num 10] False [Num (10::int), Num 10] 1 = Inr (Some 1)
   \<and> (\<exists>s t. state_after [Num 1, Num 2] [Num 10, Num 10] False [Num (10::int), Num 10] 0 = Inr s
           \<and> state_after [Num 1, Num 2] [Num 10, Num 10] False [Num (10::int), Num 10] 1 = Inr t
           \<and> next_start_idx s \<le> next_start_idx t)
   \<and> (0::nat) < 1"
proof -
  have jk: "(0::nat) \<le> 1" by simp
  have h0: "hit_at [Num 1, Num 2] [Num 10, Num 10] False [Num (10::int), Num 10] 0 = Inr (Some 0)"
    by code_simp
  have h1: "hit_at [Num 1, Num 2] [Num 10, Num 10] False [Num (10::int), Num 10] 1 = Inr (Some 1)"
    by code_simp
  from cursor_monotone [OF jk, of "[Num 1, Num 2]" "[Num 10, Num 10]" False "[Num (10::int), Num 10]"]
    h0 h1 show ?thesis by simp
qed

text \<open>
  C6 (as amended). A line aligned onto its own clock comes back unchanged, when line and
  clock have the same length and no timestamp of the clock is \<open>NaN\<close>. The clock need not
  be sorted.
\<close>

theorem own_clock_identity:
  assumes len: "length line = length line_clk"
    and nan: "NaN \<notin> set line_clk"
  shows "convert_to_master_clock line line_clk (Some line_clk) fill_by_prev = Inr line
         \<and> convert_to_master_clock [Num 1, Num 2, Num 3] [Num 10, Num 20, Num 30]
             (Some [Num (10::int), Num 20, Num 30]) False = Inr [Num 1, Num 2, Num 3]"
proof -
  from loop_own_clock [OF len nan, of 0 fill_by_prev]
  have "convert_to_master_clock line line_clk (Some line_clk) fill_by_prev = Inr line"
    by (simp add: convert_to_master_clock_def init_state_def)
  moreover have "convert_to_master_clock [Num 1, Num 2, Num 3] [Num 10, Num 20, Num 30]
             (Some [Num (10::int), Num 20, Num 30]) False = Inr [Num 1, Num 2, Num 3]"
    by code_simp
  ultimately show ?thesis by simp
qed

theorem own_clock_identity_witness:
  "length [Num (1::int), Num 2, Num 3] = length [Num (30::int), Num 10, Num 10]
   \<and> NaN \<notin> set [Num (30::int), Num 10, Num 10]
   \<and> convert_to_master_clock [Num 1, Num 2, Num 3] [Num 30, Num 10, Num 10]
        (Some [Num (30::int), Num 10, Num 10]) True = Inr [Num (1::int), Num 2, Num 3]"
proof -
  have len: "length [Num (1::int), Num 2, Num 3] = length [Num (30::int), Num 10, Num 10]"
    by simp
  have nan: "NaN \<notin> set [Num (30::int), Num 10, Num 10]" by simp
  from own_clock_identity [OF len nan, of True] len nan show ?thesis by simp
qed

text \<open>
  C6 as stated fails for a clock with a \<open>NaN\<close> timestamp: \<open>NaN == NaN\<close> is false, the
  timestamp finds no hit and the value \<open>1\<close> is replaced by \<open>NaN\<close>.
\<close>

theorem own_clock_nan_counterexample:
  "length [Num (1::int)] = length [NaN :: int pyfloat]
   \<and> convert_to_master_clock [Num (1::int)] [NaN] (Some [NaN]) False = Inr [NaN]
   \<and> convert_to_master_clock [Num (1::int)] [NaN] (Some [NaN]) False \<noteq> Inr [Num 1]"
  by code_simp

text \<open>
  C7. The function raises no exception, whatever the lengths of line and clock and the
  order of the timestamps: it always returns a list, each of whose values is \<open>NaN\<close> or a
  value of the line. One iteration of the loop never fails from any state, and the index
  \<open>i - clk_offset\<close> of an exact hit is always below the length of the line, so that
  the read \<open>line[line_idx]\<close> is in range whenever it is made.
\<close>

theorem never_raises:
  "(\<exists>out. convert_to_master_clock line line_clk master_clock fill_by_prev = Inr out
          \<and> set out \<subseteq> insert NaN (set line))
   \<and> (\<exists>st'. body line line_clk fill_by_prev sc st = Inr st')
   \<and> (\<forall>i. find_hit line_clk sc [next_start_idx st ..< length line_clk] = Inr (Some i)
          \<longrightarrow> int i - clk_offset line line_clk < int (length line)
            \<and> (0 \<le> int i - clk_offset line line_clk \<longrightarrow>
                 getitem line (int i - clk_offset line line_clk)
                   = Inr (line ! nat (int i - clk_offset line line_clk))))"
proof -
  have "\<exists>out. convert_to_master_clock line line_clk master_clock fill_by_prev = Inr out
          \<and> set out \<subseteq> insert NaN (set line)"
  proof (cases master_clock)
    case None
    then show ?thesis by (auto simp: convert_to_master_clock_def)
  next
    case (Some mc)
    obtain s where s: "loop line line_clk fill_by_prev mc init_state = Inr s"
      using loop_total by blast
    from loop_values [OF s] have "set (new_line s) \<subseteq> insert NaN (set line)"
      by (simp add: init_state_def)
    with s Some show ?thesis by (simp add: convert_to_master_clock_def)
  qed
  moreover have "int i - clk_offset line line_clk < int (length line)
            \<and> (0 \<le> int i - clk_offset line line_clk \<longrightarrow>
                 getitem line (int i - clk_offset line line_clk)
                   = Inr (line ! nat (int i - clk_offset line line_clk)))"
    if h: "find_hit line_clk sc [next_start_idx st ..< length line_clk] = Inr (Some i)" for i
  proof -
    have "i < length line_clk" using find_hit_range_Some(2) [OF h] .
    then have lt: "int i - clk_offset line line_clk < int (length line)"
      by (simp add: clk_offset_def)
    then show ?thesis by (simp add: getitem_def)
  qed
  ultimately show ?thesis using body_total [of line line_clk fill_by_prev sc st] by blast
qed

theorem never_raises_witness:
  "find_hit [Num (5::int), Num 10, Num 20] (Num 20)
       [next_start_idx \<lparr>new_line = [Num (7::int)], next_start_idx = 1\<rparr>
          ..< length [Num (5::int), Num 10, Num 20]] = Inr (Some 2)
   \<and> int 2 - clk_offset [Num (100::int), Num 200, Num 300, Num 400] [Num (5::int), Num 10, Num 20]
       < int (length [Num (100::int), Num 200, Num 300, Num 400])
   \<and> getitem [Num (100::int), Num 200, Num 300, Num 400]
       (int 2 - clk_offset [Num (100::int), Num 200, Num 300, Num 400] [Num (5::int), Num 10, Num 20])
       = Inr (Num 400)"
proof -
  let ?st = "\<lparr>new_line = [Num (7::int)], next_start_idx = 1\<rparr>"
  have hit: "find_hit [Num (5::int), Num 10, Num 20] (Num 20)
       [next_start_idx ?st ..< length [Num (5::int), Num 10, Num 20]] = Inr (Some 2)"
    by code_simp
  from never_raises [of "[Num (100::int), Num 200, Num 300, Num 400]"
      "[Num (5::int), Num 10, Num 20]" None False "Num 20" ?st] hit
  show ?thesis by (simp add: clk_offset_def)
qed

text \<open>
  C8. With \<open>fill_by_prev\<close> set, an exact hit whose corrected index is negative appends
  \<open>NaN\<close>, not the last value of \<open>new_line\<close>, from every state of the loop; so the
  value emitted for such a master timestamp is \<open>NaN\<close>. The fill with the previous value
  is made only when no hit was found.
\<close>

theorem negative_index_hit_emits_nan:
  assumes hit: "find_hit line_clk sc [next_start_idx st ..< length line_clk] = Inr (Some i)"
    and neg: "int i - clk_offset line line_clk < 0"
  shows "body line line_clk True sc st
           = Inr \<lparr>new_line = new_line st @ [NaN], next_start_idx = i + 1\<rparr>
         \<and> (\<forall>mc k j. k < length mc
                 \<and> hit_at line line_clk True mc k = Inr (Some j)
                 \<and> int j - clk_offset line line_clk < 0
               \<longrightarrow> (\<exists>out. convert_to_master_clock line line_clk (Some mc) True = Inr out
                          \<and> out ! k = NaN))"
proof -
  from body_hit [OF hit, of line True] neg
  have "body line line_clk True sc st
          = Inr \<lparr>new_line = new_line st @ [NaN], next_start_idx = i + 1\<rparr>"
    by simp
  moreover have "\<exists>out. convert_to_master_clock line line_clk (Some mc) True = Inr out
                   \<and> out ! k = NaN"
    if k: "k < length mc" and h: "hit_at line line_clk True mc k = Inr (Some j)"
      and n: "int j - clk_offset line line_clk < 0" for mc k j
    using hit_at_iteration [OF k h] n by auto
  ultimately show ?thesis by blast
qed

theorem negative_index_hit_emits_nan_witness:
  "find_hit [Num (5::int), Num 10, Num 20] (Num 10)
       [next_start_idx \<lparr>new_line = [Num (7::int)], next_start_idx = 1\<rparr>
          ..< length [Num (5::int), Num 10, Num 20]] = Inr (Some 1)
   \<and> int 1 - clk_offset [Num (100::int)] [Num (5::int), Num 10, Num 20] < 0
   \<and> (1::nat) < length [Num (5::int), Num 10, Num 20]
   \<and> hit_at [Num 100] [Num 5, Num 10, Num 20] True [Num (5::int), Num 10, Num 20] 1
       = Inr (Some 1)
   \<and> body [Num 100] [Num (5::int), Num 10, Num 20] True (Num 10)
        \<lparr>new_line = [Num 7], next_start_idx = 1\<rparr>
       = Inr \<lparr>new_line = [Num 7, NaN], next_start_idx = 2\<rparr>
   \<and> (\<exists>out. convert_to_master_clock [Num 100] [Num 5, Num 10, Num 20]
               (Some [Num (5::int), Num 10, Num 20]) True = Inr out
            \<and> out ! 1 = NaN)"
proof -
  let ?st = "\<lparr>new_line = [Num (7::int)], next_start_idx = 1\<rparr>"
  let ?clk = "[Num (5::int), Num 10, Num 20]"
  have hit: "find_hit ?clk (Num 10) [next_start_idx ?st ..< length ?clk] = Inr (Some 1)"
    by code_simp
  have neg: "int 1 - clk_offset [Num (100::int)] ?clk < 0"
    by (simp add: clk_offset_def)
  have k: "(1::nat) < length ?clk" by simp
  have h: "hit_at [Num 100] ?clk True ?clk 1 = Inr (Some 1)"
    by code_simp
  note inst = negative_index_hit_emits_nan [OF hit neg]
  from inst have b: "body [Num 100] ?clk True (Num 10) ?st
                      = Inr \<lparr>new_line = [Num 7, NaN], next_start_idx = 2\<rparr>"
    by simp
  from inst have "\<forall>mc k j. k < length mc
                 \<and> hit_at [Num 100] ?clk True mc k = Inr (Some j)
                 \<and> int j - clk_offset [Num (100::int)] ?clk < 0
               \<longrightarrow> (\<exists>out. convert_to_master_clock [Num 100] ?clk (Some mc) True = Inr out
                          \<and> out ! k = NaN)"
    by (rule conjunct2)
  with k h neg have "\<exists>out. convert_to_master_clock [Num 100] ?clk (Some ?clk) True = Inr out
                          \<and> out ! 1 = NaN"
    by blast
  with hit neg k h b show ?thesis by blast
qed

section \<open>Properties of find_by_plotid\<close>

text \<open>
  C9 (as amended). \<^verbatim>\<open>find_by_plotid\<close> raises (\<^verbatim>\<open>RuntimeError\<close>, and nothing else) exactly
  when the identifier of more than one candidate compares equal (\<^verbatim>\<open>==\<close>) to the searched
  one. When exactly one does, it returns that object; when none does, it returns
  \<^verbatim>\<open>None\<close> and does not raise. For a searched identifier other than \<open>NaN\<close> these
  candidates are exactly the ones that carry the identifier. Nothing compares equal to
  \<open>NaN\<close>: a search for it returns \<^verbatim>\<open>None\<close>, whatever the candidates carry.
\<close>

theorem find_by_plotid_ambiguous:
  "(find_by_plotid strategy pid = Inl RuntimeError \<longleftrightarrow> 1 < num_matching strategy pid)
   \<and> (isl (find_by_plotid strategy pid) \<longleftrightarrow> 1 < num_matching strategy pid)
   \<and> (num_matching strategy pid = 1 \<longrightarrow>
        (\<exists>obj. find_by_plotid strategy pid = Inr (Some obj) \<and> matching strategy pid = [obj]))
   \<and> (num_matching strategy pid = 0 \<longrightarrow> find_by_plotid strategy pid = Inr None)
   \<and> (pid \<noteq> PyNum NaN \<longrightarrow>
        num_matching strategy pid = num_carrying strategy pid
      \<and> matching strategy pid
          = filter (\<lambda>obj. plotid (plotinfo obj) = pid) (candidates strategy))
   \<and> num_matching strategy (PyNum NaN) = 0
   \<and> find_by_plotid strategy (PyNum NaN) = Inr None"
proof -
  let ?founds = "matching strategy pid"
  have n: "num_matching strategy pid = length ?founds"
    by (simp add: num_matching_def)
  have f: "find_by_plotid strategy pid =
             (if length (matching strategy pid) = 0 then Inr None
              else if length (matching strategy pid) = 1
                   then (case getitem (matching strategy pid) 0 of
                           Inl e \<Rightarrow> Inl e | Inr obj \<Rightarrow> Inr (Some obj))
                   else Inl RuntimeError)" for pid
    by (simp add: find_by_plotid_def matching_def candidates_def collect_founds_filter Let_def)
  have nan: "matching strategy (PyNum NaN) = []"
    by (simp add: matching_def py_equal_nan)
  have carried: "num_matching strategy pid = num_carrying strategy pid
      \<and> matching strategy pid
          = filter (\<lambda>obj. plotid (plotinfo obj) = pid) (candidates strategy)"
    if "pid \<noteq> PyNum NaN"
    using that
    by (simp add: num_matching_def num_carrying_def matching_def count_list_map_filter
        py_equal_iff)
  have tail: "num_matching strategy (PyNum NaN) = 0
              \<and> find_by_plotid strategy (PyNum NaN) = Inr None"
    using nan by (simp add: f num_matching_def)
  consider (zero) "?founds = []" | (one) obj where "?founds = [obj]"
    | (many) "1 < length ?founds"
    by (cases ?founds rule: list.exhaust; cases "tl ?founds"; force)
  then have "(find_by_plotid strategy pid = Inl RuntimeError \<longleftrightarrow> 1 < num_matching strategy pid)
   \<and> (isl (find_by_plotid strategy pid) \<longleftrightarrow> 1 < num_matching strategy pid)
   \<and> (num_matching strategy pid = 1 \<longrightarrow>
        (\<exists>obj. find_by_plotid strategy pid = Inr (Some obj) \<and> matching strategy pid = [obj]))
   \<and> (num_matching strategy pid = 0 \<longrightarrow> find_by_plotid strategy pid = Inr None)"
  proof cases
    case zero
    then show ?thesis unfolding n f by simp
  next
    case one
    then show ?thesis unfolding n f by (simp add: getitem_def)
  next
    case many
    then show ?thesis unfolding n f by auto
  qed
  with carried tail show ?thesis by blast
qed

theorem find_by_plotid_ambiguous_witness:
  "num_matching
      \<lparr>datas = [\<lparr>obj_name = ''data0'', plotinfo = \<lparr>plotid = PyStr ''a''\<rparr>\<rparr>],
       getindicators = [\<lparr>obj_name = ''sma'', plotinfo = \<lparr>plotid = PyStr ''b''\<rparr>\<rparr>],
       getobservers = [\<lparr>obj_name = ''broker'', plotinfo = \<lparr>plotid = PyStr ''a''\<rparr>\<rparr>]\<rparr>
      (PyStr ''b'' :: int pyval) = 1
   \<and> find_by_plotid
      \<lparr>datas = [\<lparr>obj_name = ''data0'', plotinfo = \<lparr>plotid = PyStr ''a''\<rparr>\<rparr>],
       getindicators = [\<lparr>obj_name = ''sma'', plotinfo = \<lparr>plotid = PyStr ''b''\<rparr>\<rparr>],
       getobservers = [\<lparr>obj_name = ''broker'', plotinfo = \<lparr>plotid = PyStr ''a''\<rparr>\<rparr>]\<rparr>
      (PyStr ''b'' :: int pyval) = Inr (Some \<lparr>obj_name = ''sma'', plotinfo = \<lparr>plotid = PyStr ''b''\<rparr>\<rparr>)
   \<and> num_matching
      \<lparr>datas = [\<lparr>obj_name = ''data0'', plotinfo = \<lparr>plotid = PyStr ''a''\<rparr>\<rparr>],
       getindicators = [\<lparr>obj_name = ''sma'', plotinfo = \<lparr>plotid = PyStr ''b''\<rparr>\<rparr>],
       getobservers = [\<lparr>obj_name = ''broker'', plotinfo = \<lparr>plotid = PyStr ''a''\<rparr>\<rparr>]\<rparr>
      (PyStr ''c'' :: int pyval) = 0
   \<and> find_by_plotid
      \<lparr>datas = [\<lparr>obj_name = ''data0'', plotinfo = \<lparr>plotid = PyStr ''a''\<rparr>\<rparr>],
       getindicators = [\<lparr>obj_name = ''sma'', plotinfo = \<lparr>plotid = PyStr ''b''\<rparr>\<rparr>],
       getobservers = [\<lparr>obj_name = ''broker'', plotinfo = \<lparr>plotid = PyStr ''a''\<rparr>\<rparr>]\<rparr>
      (PyStr ''c'' :: int pyval) = Inr None
   \<and> PyStr ''a'' \<noteq> (PyNum NaN :: int pyval)
   \<and> num_carrying
      \<lparr>datas = [\<lparr>obj_name = ''data0'', plotinfo = \<lparr>plotid = PyStr ''a''\<rparr>\<rparr>],
       getindicators = [\<lparr>obj_name = ''sma'', plotinfo = \<lparr>plotid = PyStr ''b''\<rparr>\<rparr>],
       getobservers = [\<lparr>obj_name = ''broker'', plotinfo = \<lparr>plotid = PyStr ''a''\<rparr>\<rparr>]\<rparr>
      (PyStr ''a'' :: int pyval) = 2
   \<and> find_by_plotid
      \<lparr>datas = [\<lparr>obj_name = ''data0'', plotinfo = \<lparr>plotid = PyStr ''a''\<rparr>\<rparr>],
       getindicators = [\<lparr>obj_name = ''sma'', plotinfo = \<lparr>plotid = PyStr ''b''\<rparr>\<rparr>],
       getobservers = [\<lparr>obj_name = ''broker'', plotinfo = \<lparr>plotid = PyStr ''a''\<rparr>\<rparr>]\<rparr>
      (PyStr ''a'' :: int pyval) = Inl RuntimeError"
proof -
  let ?s = "\<lparr>datas = [\<lparr>obj_name = ''data0'', plotinfo = \<lparr>plotid = PyStr ''a''\<rparr>\<rparr>],
       getindicators = [\<lparr>obj_name = ''sma'', plotinfo = \<lparr>plotid = PyStr ''b''\<rparr>\<rparr>],
       getobservers = [\<lparr>obj_name = ''broker'', plotinfo = \<lparr>plotid = PyStr ''a''\<rparr>\<rparr>]\<rparr> :: int strategy"
  have n1: "num_matching ?s (PyStr ''b'') = 1"
    and n0: "num_matching ?s (PyStr ''c'') = 0"
    and n2: "num_carrying ?s (PyStr ''a'') = 2"
    by (simp_all add: num_matching_def matching_def num_carrying_def candidates_def)
  have ne: "PyStr ''a'' \<noteq> (PyNum NaN :: int pyval)" by simp
  from find_by_plotid_ambiguous [of ?s "PyStr ''b''"] n1
  have one: "find_by_plotid ?s (PyStr ''b'')
               = Inr (Some \<lparr>obj_name = ''sma'', plotinfo = \<lparr>plotid = PyStr ''b''\<rparr>\<rparr>)"
    by (auto simp: matching_def candidates_def)
  from find_by_plotid_ambiguous [of ?s "PyStr ''c''"] n0
  have zero: "find_by_plotid ?s (PyStr ''c'') = Inr None"
    by simp
  from find_by_plotid_ambiguous [of ?s "PyStr ''a''"] n2 ne
  have many: "find_by_plotid ?s (PyStr ''a'') = Inl RuntimeError"
    by simp
  from n1 one n0 zero ne n2 many show ?thesis by blast
qed

text \<open>
  C9 as stated fails for the identifier \<open>NaN\<close>: two candidates carry it, yet the search
  for it raises nothing and returns \<^verbatim>\<open>None\<close>.
\<close>

theorem find_by_plotid_nan_counterexample:
  "num_carrying
      \<lparr>datas = [\<lparr>obj_name = ''data0'', plotinfo = \<lparr>plotid = PyNum NaN\<rparr>\<rparr>,
                \<lparr>obj_name = ''data1'', plotinfo = \<lparr>plotid = PyNum NaN\<rparr>\<rparr>],
       getindicators = [], getobservers = []\<rparr>
      (PyNum (NaN :: int pyfloat)) = 2
   \<and> find_by_plotid
      \<lparr>datas = [\<lparr>obj_name = ''data0'', plotinfo = \<lparr>plotid = PyNum NaN\<rparr>\<rparr>,
                \<lparr>obj_name = ''data1'', plotinfo = \<lparr>plotid = PyNum NaN\<rparr>\<rparr>],
       getindicators = [], getobservers = []\<rparr>
      (PyNum (NaN :: int pyfloat)) = Inr None
   \<and> find_by_plotid
      \<lparr>datas = [\<lparr>obj_name = ''data0'', plotinfo = \<lparr>plotid = PyNum NaN\<rparr>\<rparr>,
                \<lparr>obj_name = ''data1'', plotinfo = \<lparr>plotid = PyNum NaN\<rparr>\<rparr>],
       getindicators = [], getobservers = []\<rparr>
      (PyNum (NaN :: int pyfloat)) \<noteq> Inl RuntimeError"
  by (simp add: num_carrying_def candidates_def find_by_plotid_def)

section \<open>Determinism and effects on the store\<close>

text \<open>
  C10 (as amended). On a store with valid addresses the call ends without an exception and
  changes no list object that existed before it, so the input sequences are unmodified.
  The returned sequence is the list model's result, a function of the contents of the
  inputs alone: a second call on the store left by the first gives the same sequence. When
  the master clock is not \<^verbatim>\<open>None\<close> the returned object is new (the first unused address);
  when it is \<^verbatim>\<open>None\<close> the returned object is the input line itself and the store is
  unchanged.
\<close>

theorem alignment_pure:
  assumes l: "line < length h" and c: "line_clk < length h"
    and m: "case master_clock of None \<Rightarrow> True | Some master \<Rightarrow> master < length h"
  shows "\<exists>r h' out.
           convert_to_master_clock_h h line line_clk master_clock fill_by_prev = Some (Inr r, h')
         \<and> take (length h) h' = h
         \<and> r < length h' \<and> h' ! r = out
         \<and> convert_to_master_clock (h ! line) (h ! line_clk)
              (map_option ((!) h) master_clock) fill_by_prev = Inr out
         \<and> (\<exists>r2 h2. convert_to_master_clock_h h' line line_clk master_clock fill_by_prev
                        = Some (Inr r2, h2)
                    \<and> take (length h') h2 = h' \<and> h2 ! r2 = out)
         \<and> (if master_clock = None then r = line \<and> h' = h
             else r = length h \<and> h' = h @ [out])"
proof (cases master_clock)
  case None
  with l show ?thesis
    by (simp add: convert_to_master_clock_h_def convert_to_master_clock_def)
next
  case (Some master)
  with m have ms: "master < length h" by simp
  from convert_h_Some [OF l c ms, of fill_by_prev] obtain out where
    pure: "convert_to_master_clock (h ! line) (h ! line_clk) (Some (h ! master)) fill_by_prev
             = Inr out"
    and first: "convert_to_master_clock_h h line line_clk (Some master) fill_by_prev
                  = Some (Inr (length h), h @ [out])"
    by blast
  let ?h' = "h @ [out]"
  have l': "line < length ?h'" and c': "line_clk < length ?h'" and m': "master < length ?h'"
    using l c ms by simp_all
  have same: "?h' ! line = h ! line" "?h' ! line_clk = h ! line_clk" "?h' ! master = h ! master"
    using l c ms by (simp_all add: nth_append)
  from convert_h_Some [OF l' c' m', of fill_by_prev] pure same
  have second: "convert_to_master_clock_h ?h' line line_clk (Some master) fill_by_prev
                  = Some (Inr (length ?h'), ?h' @ [out])"
    by simp
  have "take (length ?h') (?h' @ [out]) = ?h'" and "(?h' @ [out]) ! length ?h' = out"
    by (simp, rule nth_append_length)
  with second have
    "\<exists>r2 h2. convert_to_master_clock_h ?h' line line_clk (Some master) fill_by_prev
                = Some (Inr r2, h2)
            \<and> take (length ?h') h2 = ?h' \<and> h2 ! r2 = out"
    by blast
  with Some first pure show ?thesis by simp
qed

theorem alignment_pure_witness:
  "(0::nat) < length [[Num (1::int), Num 3], [Num 10, Num 30], [Num 10, Num 20, Num 30]]
   \<and> (1::nat) < length [[Num (1::int), Num 3], [Num 10, Num 30], [Num 10, Num 20, Num 30]]
   \<and> (2::nat) < length [[Num (1::int), Num 3], [Num 10, Num 30], [Num 10, Num 20, Num 30]]
   \<and> convert_to_master_clock_h
        [[Num (1::int), Num 3], [Num 10, Num 30], [Num 10, Num 20, Num 30]] 0 1 (Some 2) True
       = Some (Inr 3, [[Num 1, Num 3], [Num 10, Num 30], [Num 10, Num 20, Num 30],
                       [Num 1, Num 1, Num 3]])"
proof -
  let ?h = "[[Num (1::int), Num 3], [Num 10, Num 30], [Num 10, Num 20, Num 30]]"
  have l: "(0::nat) < length ?h" and c: "(1::nat) < length ?h" by simp_all
  have m: "case Some (2::nat) of None \<Rightarrow> True | Some master \<Rightarrow> master < length ?h" by simp
  have pure: "convert_to_master_clock (?h ! 0) (?h ! 1) (Some (?h ! 2)) True
                = Inr [Num 1, Num 1, Num 3]"
    by code_simp
  from alignment_pure [OF l c m, of True] pure
  have "convert_to_master_clock_h ?h 0 1 (Some 2) True
          = Some (Inr 3, ?h @ [[Num 1, Num 1, Num 3]])"
    by auto
  with l c show ?thesis by simp
qed

text \<open>
  C10 as stated fails for a master clock that is \<^verbatim>\<open>None\<close>: the returned address is the
  address of the input line, an object that existed before the call, not a new one.
\<close>

theorem alignment_alias_counterexample:
  "convert_to_master_clock_h [[Num (1::int), Num 3], [Num 10, Num 30]] 0 1 None False
     = Some (Inr 0, [[Num 1, Num 3], [Num 10, Num 30]])
   \<and> (0::nat) < length [[Num (1::int), Num 3], [Num 10, Num 30]]"
  by (simp add: convert_to_master_clock_h_def)

end
